theory Spec2Isabelle
  imports Complex_Main "HOL-Library.AList"
begin

section \<open>Values and errors\<close>

text \<open>
  Python and JSON values. A number is kept by its value: a float is the rational it
  denotes and arithmetic on it is exact, and the int \<open>0\<close> and the float \<open>0.0\<close> are the
  same number. A dict is an association list in insertion order: \<open>map_of\<close> reads a key
  and \<open>AList.update\<close> is \<^verbatim>\<open>d[k] = v\<close> (in place for a known key, at the end for a new
  one).
\<close>

datatype pyval =
    PNone
  | PBool bool
  | PNum rat
  | PStr string
  | PList "pyval list"
  | PDict "(string \<times> pyval) list"

type_synonym pydict = "(string \<times> pyval) list"

text \<open>
  The exceptions that can leave the modelled functions. \<open>EmbeddingError\<close> and
  \<open>IndexSearchError\<close> stand for whatever the sentence-transformers model and the FAISS
  index raise; \<open>OSError\<close> for a failed file operation.
\<close>

datatype error =
    JSONDecodeError
  | AttributeError
  | TypeError
  | KeyError
  | IndexError
  | OSError
  | EmbeddingError
  | IndexSearchError

type_synonym vec = "rat list"

section \<open>Similarity score (app.py, search, lines 92-93)\<close>

text \<open>
  \<^verbatim>\<open>round(x, 1)\<close> on a float rounds the exact value of \<open>x\<close> to one decimal place; a value
  exactly halfway between two decimals goes to the even one.
\<close>

definition round_half_even :: "rat \<Rightarrow> int" where
  "round_half_even x =
     (let fl = \<lfloor>x\<rfloor>; r = x - of_int fl
      in if r < 1 / 2 then fl
         else if 1 / 2 < r then fl + 1
         else if even fl then fl else fl + 1)"

definition py_round1 :: "rat \<Rightarrow> rat" where
  "py_round1 x = of_int (round_half_even (x * 10)) / 10"

text \<open>
  \<^verbatim>\<open>similarity = max(0, (1 - float(score) / 2.0)) * 100\<close>, then
  \<^verbatim>\<open>round(similarity, 1)\<close>.
\<close>

definition similarity_percent :: "rat \<Rightarrow> rat" where
  "similarity_percent score = py_round1 (max 0 (1 - score / 2) * 100)"

section \<open>Download counter (app.py, lines 20-39)\<close>

text \<open>
  The state of \<^verbatim>\<open>data/download_stats.json\<close>: \<open>None\<close> when the path does not exist,
  otherwise its content, classified by what \<^verbatim>\<open>json.load\<close> does with it: it raises
  (\<open>Unparseable\<close>) or it returns a value (\<open>Parsed\<close>). \<^verbatim>\<open>json.dump\<close> followed by
  \<^verbatim>\<open>json.load\<close> gives the value back, so a saved value is stored as \<open>Parsed\<close>.
  Opening the file is taken to succeed, and the lock \<^verbatim>\<open>_stats_lock\<close> has no effect on a
  single caller, so it does not appear.
\<close>

datatype stats_file = Unparseable | Parsed pyval

definition load_stats :: "stats_file option \<Rightarrow> error + pyval" where
  "load_stats f =
     (case f of
        None \<Rightarrow> Inr (PDict [])
      | Some Unparseable \<Rightarrow> Inl JSONDecodeError
      | Some (Parsed v) \<Rightarrow> Inr v)"

definition save_stats :: "pyval \<Rightarrow> stats_file option \<Rightarrow> stats_file option" where
  "save_stats stats f = Some (Parsed stats)"

text \<open>\<^verbatim>\<open>stats.get(k, dflt)\<close>: only a dict has the method.\<close>

definition dict_get :: "pyval \<Rightarrow> string \<Rightarrow> pyval \<Rightarrow> error + pyval" where
  "dict_get d k dflt =
     (case d of
        PDict al \<Rightarrow> Inr (case map_of al k of None \<Rightarrow> dflt | Some v \<Rightarrow> v)
      | _ \<Rightarrow> Inl AttributeError)"

text \<open>\<^verbatim>\<open>v + 1\<close>: defined on numbers and on booleans (\<^verbatim>\<open>True + 1 == 2\<close>).\<close>

definition add_one :: "pyval \<Rightarrow> error + pyval" where
  "add_one v =
     (case v of
        PNum x \<Rightarrow> Inr (PNum (x + 1))
      | PBool b \<Rightarrow> Inr (PNum (if b then 2 else 1))
      | _ \<Rightarrow> Inl TypeError)"

text \<open>\<^verbatim>\<open>d[k] = v\<close> and \<^verbatim>\<open>d[k]\<close> with a string key.\<close>

definition dict_setitem :: "pyval \<Rightarrow> string \<Rightarrow> pyval \<Rightarrow> error + pyval" where
  "dict_setitem d k v =
     (case d of
        PDict al \<Rightarrow> Inr (PDict (AList.update k v al))
      | _ \<Rightarrow> Inl TypeError)"

definition dict_getitem :: "pyval \<Rightarrow> string \<Rightarrow> error + pyval" where
  "dict_getitem d k =
     (case d of
        PDict al \<Rightarrow> (case map_of al k of None \<Rightarrow> Inl KeyError | Some v \<Rightarrow> Inr v)
      | _ \<Rightarrow> Inl TypeError)"

text \<open>
  \<^verbatim>\<open>increment_download(filename)\<close> returns its result (or the exception that leaves
  it) and the state of the file afterwards. An exception before \<^verbatim>\<open>save_stats\<close> leaves
  the file as it was.
\<close>

definition increment_download ::
  "string \<Rightarrow> stats_file option \<Rightarrow> (error + pyval) \<times> stats_file option" where
  "increment_download filename f =
     (case load_stats f of
        Inl e \<Rightarrow> (Inl e, f)
      | Inr stats \<Rightarrow>
          (case dict_get stats filename (PNum 0) of
             Inl e \<Rightarrow> (Inl e, f)
           | Inr c \<Rightarrow>
               (case add_one c of
                  Inl e \<Rightarrow> (Inl e, f)
                | Inr c' \<Rightarrow>
                    (case dict_setitem stats filename c' of
                       Inl e \<Rightarrow> (Inl e, f)
                     | Inr stats' \<Rightarrow>
                         (dict_getitem stats' filename, save_stats stats' f)))))"

text \<open>
  A store state is a dict from file ids to integer counts; \<open>store_json\<close> is that dict as
  a value, \<open>count\<close> reads a count with an absent key as 0, and a file holds the store
  \<open>cs\<close> when it contains it, or when it does not exist and \<open>cs\<close> is empty.
\<close>

definition store_json :: "(string \<times> int) list \<Rightarrow> pyval" where
  "store_json cs = PDict (map (\<lambda>(k, n). (k, PNum (of_int n))) cs)"

definition count :: "(string \<times> int) list \<Rightarrow> string \<Rightarrow> int" where
  "count cs k = (case map_of cs k of None \<Rightarrow> 0 | Some n \<Rightarrow> n)"

definition holds_store :: "stats_file option \<Rightarrow> (string \<times> int) list \<Rightarrow> bool" where
  "holds_store f cs = (f = Some (Parsed (store_json cs)) \<or> (f = None \<and> cs = []))"

section \<open>Retrieval search (app.py, lines 73-96)\<close>

text \<open>
  The records of the mapping are dict objects that the search could mutate, so they
  live in a heap: an address is a position in the list of objects, and \<open>mapping\<close> is the
  list of the addresses of its records. \<^verbatim>\<open>d.copy()\<close> allocates a new object with the
  same entries; \<^verbatim>\<open>item[k] = v\<close> changes the object at the address \<open>item\<close>.
\<close>

type_synonym addr = nat

type_synonym heap = "pydict list"

text \<open>\<^verbatim>\<open>xs[i]\<close> on a list: a negative index counts from the end.\<close>

definition list_getitem :: "'a list \<Rightarrow> int \<Rightarrow> error + 'a" where
  "list_getitem xs i =
     (if 0 \<le> i \<and> i < int (length xs) then Inr (xs ! nat i)
      else if i < 0 \<and> - int (length xs) \<le> i then Inr (xs ! nat (int (length xs) + i))
      else Inl IndexError)"

definition dict_copy :: "addr \<Rightarrow> heap \<Rightarrow> addr \<times> heap" where
  "dict_copy a h = (length h, h @ [h ! a])"

definition heap_setitem :: "addr \<Rightarrow> string \<Rightarrow> pyval \<Rightarrow> heap \<Rightarrow> heap" where
  "heap_setitem a k v h = h[a := AList.update k v (h ! a)]"

text \<open>
  The loop \<^verbatim>\<open>for score, idx in zip(D[0], I[0])\<close>, with \<open>results\<close> the list of the
  addresses appended so far.
\<close>

fun search_loop ::
  "addr list \<Rightarrow> (rat \<times> int) list \<Rightarrow> heap \<Rightarrow> addr list \<Rightarrow> (error + addr list) \<times> heap" where
  "search_loop mapping [] h results = (Inr results, h)"
| "search_loop mapping ((score, idx) # rest) h results =
     (if idx < int (length mapping) \<and> idx \<noteq> - 1 then
        (case list_getitem mapping idx of
           Inl e \<Rightarrow> (Inl e, h)
         | Inr a \<Rightarrow>
             (let (item, h1) = dict_copy a h;
                  h2 = heap_setitem item ''score'' (PNum score) h1;
                  h3 = heap_setitem item ''similarity'' (PNum (similarity_percent score)) h2
              in search_loop mapping rest h3 (results @ [item])))
      else search_loop mapping rest h results)"

text \<open>
  \<^verbatim>\<open>search()\<close>, with \<open>query\<close> the value of \<^verbatim>\<open>request.args.get("q", "")\<close>. The embedding
  model and the index are library objects: \<open>encode\<close> is \<^verbatim>\<open>embed_model.encode\<close> and
  \<open>index_search\<close> is \<^verbatim>\<open>index.search\<close>, which returns the distances \<open>D\<close> and the row
  indices \<open>I\<close>, one row per query vector. The answer is what \<^verbatim>\<open>jsonify(results)\<close>
  renders: the entries of the result objects, in order.
\<close>

definition search ::
  "(pyval list \<Rightarrow> error + vec list)
     \<Rightarrow> (vec list \<Rightarrow> nat \<Rightarrow> error + rat list list \<times> int list list)
     \<Rightarrow> addr list \<Rightarrow> string \<Rightarrow> heap \<Rightarrow> (error + pydict list) \<times> heap" where
  "search encode index_search mapping query h =
     (if query = [] then (Inr [], h)
      else
        (case encode [PStr query] of
           Inl e \<Rightarrow> (Inl e, h)
         | Inr query_vec \<Rightarrow>
             (case index_search query_vec 5 of
                Inl e \<Rightarrow> (Inl e, h)
              | Inr (D, I) \<Rightarrow>
                  (case list_getitem D 0 of
                     Inl e \<Rightarrow> (Inl e, h)
                   | Inr D0 \<Rightarrow>
                       (case list_getitem I 0 of
                          Inl e \<Rightarrow> (Inl e, h)
                        | Inr I0 \<Rightarrow>
                            (case search_loop mapping (zip D0 I0) h [] of
                               (Inl e, h') \<Rightarrow> (Inl e, h')
                             | (Inr results, h') \<Rightarrow>
                                 (Inr (map (\<lambda>a. h' ! a) results), h')))))))"

text \<open>A sequence of searches, one query after the other, on the same process state.\<close>

fun searches ::
  "(pyval list \<Rightarrow> error + vec list)
     \<Rightarrow> (vec list \<Rightarrow> nat \<Rightarrow> error + rat list list \<times> int list list)
     \<Rightarrow> addr list \<Rightarrow> string list \<Rightarrow> heap \<Rightarrow> heap" where
  "searches encode index_search mapping [] h = h"
| "searches encode index_search mapping (q # qs) h =
     searches encode index_search mapping qs (snd (search encode index_search mapping q h))"

text \<open>
  What FAISS promises about one row of the answer of a flat index asked for \<open>k\<close>
  neighbours: \<open>k\<close> distances in ascending order and \<open>k\<close> row indices, each a row of the
  index or \<open>-1\<close>, no row twice.
\<close>

definition knn_answer :: "nat \<Rightarrow> rat list \<Rightarrow> int list \<Rightarrow> bool" where
  "knn_answer k D0 I0 =
     (length D0 = k \<and> length I0 = k \<and> sorted D0 \<and> (\<forall>i\<in>set I0. - 1 \<le> i)
      \<and> distinct (filter (\<lambda>i. i \<noteq> - 1) I0))"

text \<open>
  The words of the specification: the entries of a k-NN answer whose row index is not
  \<open>-1\<close> and is below the length of the mapping; the record at an ordinal; a record with
  the raw distance and the similarity attached.
\<close>

definition valid_hits :: "addr list \<Rightarrow> (rat \<times> int) list \<Rightarrow> (rat \<times> int) list" where
  "valid_hits mapping zs = filter (\<lambda>(d, i). i \<noteq> - 1 \<and> i < int (length mapping)) zs"

definition record_at :: "heap \<Rightarrow> addr list \<Rightarrow> int \<Rightarrow> pydict" where
  "record_at h mapping i = h ! (mapping ! nat i)"

definition scored_record :: "pydict \<Rightarrow> rat \<Rightarrow> pydict" where
  "scored_record r d =
     AList.update ''similarity'' (PNum (similarity_percent d)) (AList.update ''score'' (PNum d) r)"

section \<open>Index build (build_index.py, main)\<close>

text \<open>
  A flat index is its dimension and its rows. A persisted artifact is absent (\<open>None\<close>),
  intact, or torn by a write that failed midway. Each of the two writes of \<^verbatim>\<open>main\<close>
  succeeds, fails before the file is opened for writing (the file is as before), or
  fails after it was truncated. Reading the metadata file and creating the directory
  are taken to succeed: \<open>data\<close> is the loaded list of records.
\<close>

record flat_index =
  dimension :: nat
  vectors :: "vec list"

datatype 'a stored = Intact 'a | Torn

record disk =
  index_file :: "flat_index stored option"
  mapping_file :: "pydict list stored option"

datatype io_outcome = Succeeds | FailsBefore | FailsMidway

definition write_file ::
  "io_outcome \<Rightarrow> 'a \<Rightarrow> 'a stored option \<Rightarrow> error option \<times> 'a stored option" where
  "write_file outcome content old =
     (case outcome of
        Succeeds \<Rightarrow> (None, Some (Intact content))
      | FailsBefore \<Rightarrow> (Some OSError, old)
      | FailsMidway \<Rightarrow> (Some OSError, Some Torn))"

text \<open>\<^verbatim>\<open>[item["description"] for item in data]\<close>\<close>

fun descriptions_of :: "pydict list \<Rightarrow> error + pyval list" where
  "descriptions_of [] = Inr []"
| "descriptions_of (item # rest) =
     (case map_of item ''description'' of
        None \<Rightarrow> Inl KeyError
      | Some d \<Rightarrow> (case descriptions_of rest of Inl e \<Rightarrow> Inl e | Inr ds \<Rightarrow> Inr (d # ds)))"

text \<open>
  \<^verbatim>\<open>embeddings.shape[1]\<close>: the array made from no rows has the shape \<^verbatim>\<open>(0,)\<close>, which has
  no second component.
\<close>

definition shape1 :: "vec list \<Rightarrow> error + nat" where
  "shape1 embeddings = (case embeddings of [] \<Rightarrow> Inl IndexError | row # _ \<Rightarrow> Inr (length row))"

definition IndexFlatL2 :: "nat \<Rightarrow> flat_index" where
  "IndexFlatL2 d = \<lparr>dimension = d, vectors = []\<rparr>"

definition index_add :: "flat_index \<Rightarrow> vec list \<Rightarrow> flat_index" where
  "index_add index xs = index\<lparr>vectors := vectors index @ xs\<rparr>"

text \<open>
  \<^verbatim>\<open>main()\<close> returns the exception that leaves it, if any, and the state of the two
  files afterwards. The index is written first, the mapping second.
\<close>

definition main ::
  "(pyval list \<Rightarrow> error + vec list) \<Rightarrow> pydict list \<Rightarrow> io_outcome \<Rightarrow> io_outcome \<Rightarrow> disk
     \<Rightarrow> error option \<times> disk" where
  "main encode data w_index w_mapping dk =
     (case descriptions_of data of
        Inl e \<Rightarrow> (Some e, dk)
      | Inr descriptions \<Rightarrow>
          (case encode descriptions of
             Inl e \<Rightarrow> (Some e, dk)
           | Inr embeddings \<Rightarrow>
               (case shape1 embeddings of
                  Inl e \<Rightarrow> (Some e, dk)
                | Inr d \<Rightarrow>
                    (let index = index_add (IndexFlatL2 d) embeddings;
                         (r1, f1) = write_file w_index index (index_file dk);
                         dk1 = dk\<lparr>index_file := f1\<rparr>
                     in case r1 of
                          Some e \<Rightarrow> (Some e, dk1)
                        | None \<Rightarrow>
                            (let (r2, f2) = write_file w_mapping data (mapping_file dk1)
                             in (r2, dk1\<lparr>mapping_file := f2\<rparr>))))))"

section \<open>Sample collaborators and data\<close>

text \<open>
  Stand-ins for the library objects, used in the concrete instances below: an embedder
  that maps every text to the vector \<open>[1]\<close>, and indexes that answer every query with
  one, respectively two, rows and pad with \<open>-1\<close> at the distance \<open>FLT_MAX\<close>, as FAISS
  does.
\<close>

definition unit_encoder :: "pyval list \<Rightarrow> error + vec list" where
  "unit_encoder texts = Inr (map (\<lambda>t. [1]) texts)"

definition FLT_MAX :: rat where
  "FLT_MAX = 340282346638528859811704183484516925440"

definition one_row_index :: "vec list \<Rightarrow> nat \<Rightarrow> error + rat list list \<times> int list list" where
  "one_row_index qs k =
     Inr (map (\<lambda>q. 0 # replicate (k - 1) FLT_MAX) qs, map (\<lambda>q. 0 # replicate (k - 1) (- 1)) qs)"

definition two_hit_index :: "vec list \<Rightarrow> nat \<Rightarrow> error + rat list list \<times> int list list" where
  "two_hit_index qs k =
     Inr (map (\<lambda>q. [1 / 2, 1] @ replicate (k - 2) FLT_MAX) qs,
          map (\<lambda>q. [1, 0] @ replicate (k - 2) (- 1)) qs)"

definition two_records :: heap where
  "two_records = [[(''file'', PStr ''a.h5'')], [(''file'', PStr ''b.sgy'')]]"

definition one_record :: "pydict list" where
  "one_record = [[(''file'', PStr ''a.h5''), (''description'', PStr ''HDF5 file'')]]"

definition no_files :: disk where
  "no_files = \<lparr>index_file = None, mapping_file = None\<rparr>"

definition earlier_build :: disk where
  "earlier_build =
     \<lparr>index_file = Some (Intact \<lparr>dimension = 1, vectors = [[1], [1]]\<rparr>),
      mapping_file =
        Some (Intact [[(''file'', PStr ''b.sgy''), (''description'', PStr ''SEG-Y file'')],
                      [(''file'', PStr ''c.nc''), (''description'', PStr ''NetCDF file'')]])\<rparr>"

definition counted_twice :: "(string \<times> int) list" where
  "counted_twice = [(''a.h5'', 2), (''b.sgy'', 0)]"

section \<open>Properties of the similarity score\<close>








section \<open>Properties of the download counter\<close>

lemma map_of_store:
  "map_of (map (\<lambda>(k, n). (k, PNum (of_int n))) cs) k
   = map_option (\<lambda>n. PNum (of_int n)) (map_of cs k)"
  by (induction cs) auto

lemma update_store:
  "AList.update k (PNum (of_int v)) (map (\<lambda>(k, n). (k, PNum (of_int n))) cs)
   = map (\<lambda>(k, n). (k, PNum (of_int n))) (AList.update k v cs)"
  by (induction cs) auto

lemma increment_download_store:
  "increment_download fid (Some (Parsed (store_json cs))) =
     (Inr (PNum (of_int (count cs fid + 1))),
      Some (Parsed (store_json (AList.update fid (count cs fid + 1) cs))))"
proof -
  have g: "dict_get (store_json cs) fid (PNum 0) = Inr (PNum (of_int (count cs fid)))"
    by (simp add: dict_get_def store_json_def map_of_store count_def split: option.splits)
  have a: "add_one (PNum (of_int (count cs fid))) = Inr (PNum (of_int (count cs fid + 1)))"
    by (simp add: add_one_def)
  have s: "dict_setitem (store_json cs) fid (PNum (of_int (count cs fid + 1)))
           = Inr (store_json (AList.update fid (count cs fid + 1) cs))"
    unfolding dict_setitem_def store_json_def using update_store [of fid "count cs fid + 1" cs] by simp
  have r: "dict_getitem (store_json (AList.update fid (count cs fid + 1) cs)) fid
           = Inr (PNum (of_int (count cs fid + 1)))"
    by (simp add: dict_getitem_def store_json_def map_of_store update_conv' del: of_int_add)
  have l: "load_stats (Some (Parsed (store_json cs))) = Inr (store_json cs)"
    by (simp add: load_stats_def)
  show ?thesis
    by (simp only: increment_download_def l g a s r save_stats_def sum.case)
qed

lemma increment_download_absent:
  "increment_download fid None = (Inr (PNum 1), Some (Parsed (store_json [(fid, 1)])))"
  by (simp add: increment_download_def load_stats_def dict_get_def add_one_def dict_setitem_def
      dict_getitem_def save_stats_def store_json_def)

lemma increment_download_holds:
  assumes "holds_store f cs"
  shows "increment_download fid f =
     (Inr (PNum (of_int (count cs fid + 1))),
      Some (Parsed (store_json (AList.update fid (count cs fid + 1) cs))))"
  using assms increment_download_store [of fid cs] increment_download_absent [of fid]
  by (auto simp: holds_store_def count_def)

lemma snd_update_subset: "set (map snd (AList.update k v al)) \<subseteq> insert v (set (map snd al))"
  by (induction al) auto

text \<open>
  C3. On every store state, \<open>increment_download\<close> returns the previous count of the file
  id plus 1 (an absent key counts as 0) and persists the whole updated store. On an
  empty store, a first call for \<^verbatim>\<open>a.h5\<close> returns 1, a second returns 2, and reading the
  store then gives \<^verbatim>\<open>{"a.h5": 2}\<close>.
\<close>

theorem increment_download_counts:
  "increment_download fid (Some (Parsed (store_json cs))) =
     (Inr (PNum (of_int (count cs fid + 1))),
      Some (Parsed (store_json (AList.update fid (count cs fid + 1) cs))))
   \<and> increment_download fid None = (Inr (PNum 1), Some (Parsed (store_json [(fid, 1)])))
   \<and> fst (increment_download ''a.h5'' None) = Inr (PNum 1)
   \<and> fst (increment_download ''a.h5'' (snd (increment_download ''a.h5'' None))) = Inr (PNum 2)
   \<and> load_stats (snd (increment_download ''a.h5'' (snd (increment_download ''a.h5'' None))))
       = Inr (PDict [(''a.h5'', PNum 2)])"
proof -
  have one: "increment_download ''a.h5'' None = (Inr (PNum 1), Some (Parsed (store_json [(''a.h5'', 1)])))"
    by (rule increment_download_absent)
  have two: "increment_download ''a.h5'' (Some (Parsed (store_json [(''a.h5'', 1)])))
             = (Inr (PNum 2), Some (Parsed (store_json [(''a.h5'', 2)])))"
    using increment_download_store [of "''a.h5''" "[(''a.h5'', 1)]"] by (simp add: count_def)
  have rd: "load_stats (Some (Parsed (store_json [(''a.h5'', 2)]))) = Inr (PDict [(''a.h5'', PNum 2)])"
    by (simp add: load_stats_def store_json_def)
  show ?thesis
    using increment_download_store [of fid cs] increment_download_absent [of fid]
    by (simp add: one two rd)
qed


text \<open>
  C10. On every store state, \<open>increment_download\<close> persists a store in which every
  other key has the count it had, every key that was present is still present, and
  all counts are non-negative if they were before.
\<close>

theorem increment_download_frame:
  assumes "holds_store f cs"
  shows "\<exists>cs'. snd (increment_download fid f) = Some (Parsed (store_json cs'))
        \<and> (\<forall>k. k \<noteq> fid \<longrightarrow> map_of cs' k = map_of cs k)
        \<and> fst ` set cs \<subseteq> fst ` set cs'
        \<and> ((\<forall>n\<in>snd ` set cs. 0 \<le> n) \<longrightarrow> (\<forall>n\<in>snd ` set cs'. 0 \<le> n))"
proof -
  define cs' where "cs' = AList.update fid (count cs fid + 1) cs"
  have res: "snd (increment_download fid f) = Some (Parsed (store_json cs'))"
    using increment_download_holds [OF assms, of fid] by (simp add: cs'_def)
  have other: "\<forall>k. k \<noteq> fid \<longrightarrow> map_of cs' k = map_of cs k"
    by (simp add: cs'_def update_conv')
  have keys: "fst ` set cs \<subseteq> fst ` set cs'"
    by (auto simp: cs'_def dom_update)
  have nonneg: "(\<forall>n\<in>snd ` set cs. 0 \<le> n) \<longrightarrow> (\<forall>n\<in>snd ` set cs'. 0 \<le> n)"
  proof
    assume nn: "\<forall>n\<in>snd ` set cs. 0 \<le> n"
    then have "0 \<le> count cs fid"
      by (auto simp: count_def split: option.splits dest!: map_of_SomeD intro: rev_image_eqI)
    then have "\<forall>n\<in>insert (count cs fid + 1) (set (map snd cs)). 0 \<le> n" using nn by simp
    then show "\<forall>n\<in>snd ` set cs'. 0 \<le> n"
      using snd_update_subset [of fid "count cs fid + 1" cs] unfolding cs'_def
      by (metis (no_types, lifting) list.set_map subsetD)
  qed
  from res other keys nonneg show ?thesis by blast
qed

theorem increment_download_frame_witness:
  "\<exists>cs'. snd (increment_download ''a.h5'' (Some (Parsed (store_json counted_twice))))
            = Some (Parsed (store_json cs'))
        \<and> map_of cs' ''b.sgy'' = Some 0
        \<and> ''a.h5'' \<in> fst ` set cs' \<and> ''b.sgy'' \<in> fst ` set cs'
        \<and> list_all (\<lambda>n. 0 \<le> n) (map snd cs')"
proof -
  have h: "holds_store (Some (Parsed (store_json counted_twice))) counted_twice"
    by (simp add: holds_store_def)
  have nn: "\<forall>n\<in>snd ` set counted_twice. 0 \<le> n" by (simp add: counted_twice_def)
  have b: "map_of counted_twice ''b.sgy'' = Some 0" by (simp add: counted_twice_def)
  have ks: "''a.h5'' \<in> fst ` set counted_twice" "''b.sgy'' \<in> fst ` set counted_twice"
    by (simp_all add: counted_twice_def)
  from increment_download_frame [OF h, of "''a.h5''"] obtain cs' where
    res: "snd (increment_download ''a.h5'' (Some (Parsed (store_json counted_twice))))
          = Some (Parsed (store_json cs'))"
    and other: "\<forall>k. k \<noteq> ''a.h5'' \<longrightarrow> map_of cs' k = map_of counted_twice k"
    and keys: "fst ` set counted_twice \<subseteq> fst ` set cs'"
    and nonneg: "(\<forall>n\<in>snd ` set counted_twice. 0 \<le> n) \<longrightarrow> (\<forall>n\<in>snd ` set cs'. 0 \<le> n)"
    by blast
  have "map_of cs' ''b.sgy'' = Some 0" using other b by simp
  moreover have "''a.h5'' \<in> fst ` set cs'" "''b.sgy'' \<in> fst ` set cs'" using keys ks by blast+
  moreover have "list_all (\<lambda>n. 0 \<le> n) (map snd cs')" using nonneg nn by (simp add: list_all_iff)
  ultimately show ?thesis using res by blast
qed

section \<open>Properties of the retrieval search\<close>

lemma scored_record_fields:
  "map_of (scored_record r d) ''score'' = Some (PNum d)"
  "map_of (scored_record r d) ''similarity'' = Some (PNum (similarity_percent d))"
  by (simp_all add: scored_record_def update_conv')

lemma search_loop_prefix: "take (length h) (snd (search_loop mapping zs h res)) = h"
proof (induction zs arbitrary: h res)
  case Nil
  then show ?case by simp
next
  case (Cons z zs)
  obtain score idx where z: "z = (score, idx)" by (cases z)
  show ?case
  proof (cases "idx < int (length mapping) \<and> idx \<noteq> - 1")
    case False
    then show ?thesis using Cons.IH [of h res] by (auto simp: z)
  next
    case True
    show ?thesis
    proof (cases "list_getitem mapping idx")
      case (Inl e)
      then show ?thesis using True by (simp add: z)
    next
      case (Inr a)
      define h3 where "h3 = heap_setitem (length h) ''similarity'' (PNum (similarity_percent score))
          (heap_setitem (length h) ''score'' (PNum score) (h @ [h ! a]))"
      have len: "length h3 = Suc (length h)" by (simp add: h3_def heap_setitem_def)
      have pre: "take (length h) h3 = h" by (simp add: h3_def heap_setitem_def)
      have step: "search_loop mapping (z # zs) h res = search_loop mapping zs h3 (res @ [length h])"
        using True Inr by (simp add: z dict_copy_def h3_def)
      have "take (length h3) (snd (search_loop mapping zs h3 (res @ [length h]))) = h3"
        by (rule Cons.IH)
      then have "take (length h) (take (length h3) (snd (search_loop mapping zs h3 (res @ [length h])))) = take (length h) h3"
        by simp
      then have "take (length h) (snd (search_loop mapping zs h3 (res @ [length h]))) = h"
        by (simp add: len pre min_def)
      then show ?thesis by (simp only: step)
    qed
  qed
qed

lemma search_prefix: "take (length h) (snd (search encode index_search mapping query h)) = h"
proof -
  have loop: "\<And>zs r h'. search_loop mapping zs h [] = (r, h') \<Longrightarrow> take (length h) h' = h"
    using search_loop_prefix [of h mapping _ "[]"] by (metis snd_conv)
  show ?thesis
    unfolding search_def
    by (auto split: sum.splits prod.splits dest: loop)
qed

lemma searches_prefix: "take (length h) (searches encode index_search mapping qs h) = h"
proof (induction qs arbitrary: h)
  case Nil
  then show ?case by simp
next
  case (Cons q qs)
  define h1 where "h1 = snd (search encode index_search mapping q h)"
  have p1: "take (length h) h1 = h" unfolding h1_def by (rule search_prefix)
  then have "length (take (length h) h1) = length h" by simp
  then have le: "length h \<le> length h1" by simp
  have "take (length h1) (searches encode index_search mapping qs h1) = h1" by (rule Cons.IH)
  then have "take (length h) (take (length h1) (searches encode index_search mapping qs h1)) = take (length h) h1"
    by simp
  then have "take (length h) (searches encode index_search mapping qs h1) = h"
    using le p1 by (simp add: min_def)
  then show ?case by (simp add: h1_def)
qed

lemma nth_heap_items: "length xs = n \<Longrightarrow> map ((!) (h @ xs)) [length h ..< length h + n] = xs"
  by (rule nth_equalityI) (auto simp: nth_append)

lemma search_loop_valid:
  assumes "\<forall>a\<in>set mapping. a < length h" and "\<forall>(d, i)\<in>set zs. - 1 \<le> i"
  shows "search_loop mapping zs h res =
     (Inr (res @ [length h ..< length h + length (valid_hits mapping zs)]),
      h @ map (\<lambda>(d, i). scored_record (record_at h mapping i) d) (valid_hits mapping zs))"
  using assms
proof (induction zs arbitrary: h res)
  case Nil
  then show ?case by (simp add: valid_hits_def)
next
  case (Cons z zs)
  obtain score idx where z: "z = (score, idx)" by (cases z)
  have rest: "\<forall>(d, i)\<in>set zs. - 1 \<le> i" using Cons.prems(2) by simp
  show ?case
  proof (cases "idx < int (length mapping) \<and> idx \<noteq> - 1")
    case False
    then have "valid_hits mapping (z # zs) = valid_hits mapping zs"
      by (auto simp: valid_hits_def z)
    then show ?thesis using False Cons.IH [OF Cons.prems(1) rest, of res] by (auto simp: z)
  next
    case True
    have "- 1 \<le> idx" using Cons.prems(2) by (simp add: z)
    then have nonneg: "0 \<le> idx" using True by simp
    define a where "a = mapping ! nat idx"
    have get: "list_getitem mapping idx = Inr a"
      using True nonneg by (simp add: list_getitem_def a_def)
    have a_lt: "a < length h" using Cons.prems(1) True nonneg by (simp add: a_def)
    define item where "item = scored_record (h ! a) score"
    define h3 where "h3 = h @ [item]"
    have h3: "heap_setitem (length h) ''similarity'' (PNum (similarity_percent score))
          (heap_setitem (length h) ''score'' (PNum score) (h @ [h ! a])) = h3"
      by (simp add: h3_def item_def heap_setitem_def scored_record_def)
    have step: "search_loop mapping (z # zs) h res = search_loop mapping zs h3 (res @ [length h])"
      using True get by (simp add: z dict_copy_def h3)
    have wf3: "\<forall>a\<in>set mapping. a < length h3" using Cons.prems(1) by (auto simp: h3_def)
    have same: "record_at h3 mapping i = record_at h mapping i"
      if "(d, i) \<in> set (valid_hits mapping zs)" for d i
    proof -
      have "i \<noteq> - 1" and lt: "i < int (length mapping)" using that by (auto simp: valid_hits_def)
      moreover have "- 1 \<le> i" using that rest by (auto simp: valid_hits_def)
      ultimately have "0 \<le> i" by simp
      then have "mapping ! nat i \<in> set mapping" using lt by simp
      then have "mapping ! nat i < length h" using Cons.prems(1) by blast
      then show ?thesis by (simp add: record_at_def h3_def nth_append)
    qed
    have items: "map (\<lambda>(d, i). scored_record (record_at h3 mapping i) d) (valid_hits mapping zs)
               = map (\<lambda>(d, i). scored_record (record_at h mapping i) d) (valid_hits mapping zs)"
      by (rule map_cong) (auto simp: same)
    have hits: "valid_hits mapping (z # zs) = (score, idx) # valid_hits mapping zs"
      using True by (simp add: valid_hits_def z)
    have item: "scored_record (record_at h mapping idx) score = item"
      by (simp add: item_def record_at_def a_def)
    have addrs: "[length h ..< length h + length (valid_hits mapping (z # zs))]
               = length h # [length h3 ..< length h3 + length (valid_hits mapping zs)]"
      by (simp add: hits h3_def upt_rec)
    show ?thesis
      unfolding step Cons.IH [OF wf3 rest, of "res @ [length h]"] items addrs
      by (simp add: hits item h3_def)
  qed
qed

lemma valid_hits_sorted:
  assumes "sorted D0" and "length D0 = length I0"
  shows "sorted (map fst (valid_hits mapping (zip D0 I0)))"
proof -
  have "sorted (map fst (zip D0 I0))" using assms by simp
  then show ?thesis unfolding valid_hits_def by (rule sorted_filter)
qed

lemma valid_hits_snd:
  "map snd (valid_hits mapping zs) = filter (\<lambda>i. i \<noteq> - 1 \<and> i < int (length mapping)) (map snd zs)"
  by (induction zs) (auto simp: valid_hits_def)

lemma valid_hits_length_mapping:
  assumes lo: "\<forall>i\<in>set I0. - 1 \<le> i" and dist: "distinct (filter (\<lambda>i. i \<noteq> - 1) I0)"
    and len: "length D0 = length I0"
  shows "length (valid_hits mapping (zip D0 I0)) \<le> length mapping"
proof -
  define js where "js = map snd (valid_hits mapping (zip D0 I0))"
  have "js = filter (\<lambda>i. i \<noteq> - 1 \<and> i < int (length mapping)) I0"
    using len by (simp add: js_def valid_hits_snd)
  then have js: "js = filter (\<lambda>i. i < int (length mapping)) (filter (\<lambda>i. i \<noteq> - 1) I0)"
    by (simp add: conj_commute)
  have dj: "distinct js" unfolding js using dist by (rule distinct_filter)
  have "set js \<subseteq> {0 ..< int (length mapping)}"
    using lo by (auto simp: js)
  then have "card (set js) \<le> card {0 ..< int (length mapping)}"
    by (rule card_mono [rotated]) simp
  then have "length js \<le> length mapping" using dj by (simp add: distinct_card)
  then show ?thesis by (simp add: js_def)
qed

lemma valid_hits_length_k: "length (valid_hits mapping (zip D0 I0)) \<le> length I0"
proof -
  have "length (valid_hits mapping (zip D0 I0)) \<le> length (zip D0 I0)"
    unfolding valid_hits_def by (rule length_filter_le)
  then show ?thesis by simp
qed

lemma search_valid:
  assumes q: "query \<noteq> []"
    and enc: "encode [PStr query] = Inr qv"
    and idx: "index_search qv 5 = Inr ([D0], [I0])"
    and knn: "knn_answer 5 D0 I0"
    and wf: "\<forall>a\<in>set mapping. a < length h"
  shows "fst (search encode index_search mapping query h) =
           Inr (map (\<lambda>(d, i). scored_record (record_at h mapping i) d) (valid_hits mapping (zip D0 I0)))"
proof -
  have lo: "\<forall>(d, i)\<in>set (zip D0 I0). - 1 \<le> i"
    using knn by (auto simp: knn_answer_def dest: set_zip_rightD)
  note loop = search_loop_valid [OF wf lo, of "[]"]
  have items: "map ((!) (h @ map (\<lambda>(d, i). scored_record (record_at h mapping i) d)
                               (valid_hits mapping (zip D0 I0))))
                 [length h ..< length h + length (valid_hits mapping (zip D0 I0))]
             = map (\<lambda>(d, i). scored_record (record_at h mapping i) d) (valid_hits mapping (zip D0 I0))"
    by (rule nth_heap_items) simp
  show ?thesis
    by (simp add: search_def q enc idx list_getitem_def loop items)
qed

text \<open>
  C2. For a non-empty query whose embedding succeeds and an index that answers as
  FAISS promises, the search returns exactly the entries of the k-NN answer whose row
  index is not \<open>-1\<close> and is below the length of the mapping, each as the record at that
  ordinal with the raw distance (and the similarity) attached, in the order of the
  answer, which is by non-decreasing distance; there are at most \<open>min(5, len(mapping))\<close>
  of them, 5 being the \<open>k\<close> of the code.
\<close>

theorem search_returns_valid_hits:
  assumes q: "query \<noteq> []"
    and enc: "encode [PStr query] = Inr qv"
    and idx: "index_search qv 5 = Inr ([D0], [I0])"
    and knn: "knn_answer 5 D0 I0"
    and wf: "\<forall>a\<in>set mapping. a < length h"
  shows "fst (search encode index_search mapping query h) =
           Inr (map (\<lambda>(d, i). scored_record (record_at h mapping i) d) (valid_hits mapping (zip D0 I0)))
       \<and> sorted (map fst (valid_hits mapping (zip D0 I0)))
       \<and> length (valid_hits mapping (zip D0 I0)) \<le> min 5 (length mapping)"
proof -
  have len: "length D0 = length I0" and l5: "length I0 = 5" and srt: "sorted D0"
    and lo: "\<forall>i\<in>set I0. - 1 \<le> i" and dist: "distinct (filter (\<lambda>i. i \<noteq> - 1) I0)"
    using knn by (simp_all add: knn_answer_def)
  have a: "length (valid_hits mapping (zip D0 I0)) \<le> 5"
    using valid_hits_length_k [of mapping D0 I0] l5 by simp
  have b: "length (valid_hits mapping (zip D0 I0)) \<le> length mapping"
    using lo dist len by (rule valid_hits_length_mapping)
  have r: "fst (search encode index_search mapping query h) =
           Inr (map (\<lambda>(d, i). scored_record (record_at h mapping i) d) (valid_hits mapping (zip D0 I0)))"
    using q enc idx knn wf by (rule search_valid)
  show ?thesis
    using r valid_hits_sorted [OF srt len, of mapping] a b
    by simp
qed

theorem search_returns_valid_hits_witness:
  "fst (search unit_encoder two_hit_index [0, 1] ''gravity'' two_records) =
     Inr [[(''file'', PStr ''b.sgy''), (''score'', PNum (1 / 2)), (''similarity'', PNum 75)],
          [(''file'', PStr ''a.h5''), (''score'', PNum 1), (''similarity'', PNum 50)]]
   \<and> sorted [1 / 2, 1 :: rat]
   \<and> length [(1 / 2 :: rat, 1 :: int), (1, 0)] \<le> min 5 (length [0, 1 :: nat])"
proof -
  have q: "''gravity'' \<noteq> []" by simp
  have enc: "unit_encoder [PStr ''gravity''] = Inr [[1]]" by (simp add: unit_encoder_def)
  have idx: "two_hit_index [[1]] 5 =
      Inr ([[1 / 2, 1, FLT_MAX, FLT_MAX, FLT_MAX]], [[1, 0, - 1, - 1, - 1]])"
    by (simp add: two_hit_index_def numeral_eq_Suc)
  have knn: "knn_answer 5 [1 / 2, 1, FLT_MAX, FLT_MAX, FLT_MAX] [1, 0, - 1, - 1, - 1]"
    by (simp add: knn_answer_def FLT_MAX_def)
  have wf: "\<forall>a\<in>set [0, 1 :: nat]. a < length two_records" by (simp add: two_records_def)
  have hits: "valid_hits [0, 1 :: nat]
      (zip [1 / 2, 1, FLT_MAX, FLT_MAX, FLT_MAX] [1, 0, - 1, - 1, - 1]) = [(1 / 2, 1), (1, 0)]"
    by (simp add: valid_hits_def)
  have s1: "similarity_percent (1 / 2) = 75"
    by (simp add: similarity_percent_def py_round1_def round_half_even_def)
  have s2: "similarity_percent 1 = 50"
    by (simp add: similarity_percent_def py_round1_def round_half_even_def)
  note inst = search_returns_valid_hits
    [where encode = unit_encoder and index_search = two_hit_index, OF q enc idx knn wf,
      unfolded hits]
  show ?thesis
    using inst by (simp add: record_at_def two_records_def scored_record_def s1 s2)
qed

text \<open>
  C5, as the code has it. For the empty query string the search returns an empty
  sequence and raises nothing, whatever the embedder and the index would do: neither is
  called. (The code has no parameter \<open>k\<close>, and a query of white space only is not
  empty: it is embedded and searched like any other.)
\<close>

theorem search_empty_query:
  "search encode index_search mapping [] h = (Inr [], h)"
  by (simp add: search_def)

text \<open>
  A query of one space against a corpus of one record: the search returns that record,
  not an empty sequence.
\<close>

theorem search_blank_query_counterexample:
  "fst (search unit_encoder one_row_index [0] '' '' one_record)
     = Inr [[(''file'', PStr ''a.h5''), (''description'', PStr ''HDF5 file''),
             (''score'', PNum 0), (''similarity'', PNum 100)]]
   \<and> fst (search unit_encoder one_row_index [0] '' '' one_record) \<noteq> Inr []"
  by code_simp

text \<open>
  C9. Searches leave the objects that were in the heap before them as they were, in
  particular the records of the mapping: score and similarity go to a fresh copy. The
  list \<open>mapping\<close> itself is never assigned, and the index is only read.
\<close>

theorem search_keeps_mapping:
  assumes "\<forall>a\<in>set mapping. a < length h"
  shows "take (length h) (searches encode index_search mapping qs h) = h
       \<and> map ((!) (searches encode index_search mapping qs h)) mapping = map ((!) h) mapping"
proof -
  have pre: "take (length h) (searches encode index_search mapping qs h) = h"
    by (rule searches_prefix)
  have "(searches encode index_search mapping qs h) ! a = h ! a" if "a \<in> set mapping" for a
  proof -
    have "a < length h" using that assms by simp
    then have "take (length h) (searches encode index_search mapping qs h) ! a
               = searches encode index_search mapping qs h ! a" by simp
    then show ?thesis by (simp add: pre)
  qed
  then show ?thesis using pre by simp
qed

theorem search_keeps_mapping_witness:
  "take (length two_records)
     (searches unit_encoder two_hit_index [0, 1] [''gravity'', '' ''] two_records) = two_records
   \<and> map ((!) (searches unit_encoder two_hit_index [0, 1] [''gravity'', '' ''] two_records)) [0, 1]
       = two_records
   \<and> length (searches unit_encoder two_hit_index [0, 1] [''gravity'', '' ''] two_records) = 6"
proof -
  have wf: "\<forall>a\<in>set [0, 1 :: nat]. a < length two_records" by (simp add: two_records_def)
  have same: "map ((!) two_records) [0, 1] = two_records" by (simp add: two_records_def)
  have len: "length (searches unit_encoder two_hit_index [0, 1] [''gravity'', '' ''] two_records) = 6"
    by code_simp
  show ?thesis
    using search_keeps_mapping [OF wf, of unit_encoder two_hit_index "[''gravity'', '' '']"]
    by (simp only: same len simp_thms)
qed

section \<open>Properties of the index build\<close>

lemma main_empty:
  assumes "\<forall>rows. encode [] = Inr rows \<longrightarrow> rows = []"
  shows "\<exists>e. main encode [] w_index w_mapping dk = (Some e, dk)"
proof (cases "encode []")
  case (Inl e)
  then show ?thesis by (simp add: main_def)
next
  case (Inr rows)
  then have "rows = []" using assms by simp
  then show ?thesis using Inr by (simp add: main_def shape1_def)
qed

lemma main_persist:
  assumes ds: "descriptions_of data = Inr ds" and enc: "encode ds = Inr (row # rows)"
  shows "main encode data w_index w_mapping dk =
     (let index = \<lparr>dimension = length row, vectors = row # rows\<rparr>;
          (r1, f1) = write_file w_index index (index_file dk);
          dk1 = dk\<lparr>index_file := f1\<rparr>
      in case r1 of
           Some e \<Rightarrow> (Some e, dk1)
         | None \<Rightarrow>
             (let (r2, f2) = write_file w_mapping data (mapping_file dk1)
              in (r2, dk1\<lparr>mapping_file := f2\<rparr>)))"
  by (simp add: main_def ds enc shape1_def IndexFlatL2_def index_add_def)

text \<open>
  C6, as the code has it. With no records the build does not succeed: it stops with an
  exception (the \<open>IndexError\<close> of the missing dimension, or the embedder's own) and
  leaves both files as they were, so no empty index is produced. With records whose
  embedding succeeds, and both writes succeeding, it persists an index of the
  embedding rows and the records as the mapping.
\<close>

theorem build_index_needs_records:
  "((\<forall>rows. encode [] = Inr rows \<longrightarrow> rows = []) \<longrightarrow>
      fst (main encode [] w_index w_mapping dk) \<noteq> None
      \<and> snd (main encode [] w_index w_mapping dk) = dk)
   \<and> (descriptions_of data = Inr ds \<and> encode ds = Inr (row # rows) \<longrightarrow>
        main encode data Succeeds Succeeds dk =
          (None, dk\<lparr>index_file := Some (Intact \<lparr>dimension = length row, vectors = row # rows\<rparr>),
                    mapping_file := Some (Intact data)\<rparr>))"
proof (intro conjI impI)
  assume e: "\<forall>rows. encode [] = Inr rows \<longrightarrow> rows = []"
  from main_empty [of encode w_index w_mapping dk] e
  show "fst (main encode [] w_index w_mapping dk) \<noteq> None" by auto
  from main_empty [of encode w_index w_mapping dk] e
  show "snd (main encode [] w_index w_mapping dk) = dk" by auto
next
  assume "descriptions_of data = Inr ds \<and> encode ds = Inr (row # rows)"
  then have ds: "descriptions_of data = Inr ds" and enc: "encode ds = Inr (row # rows)"
    by simp_all
  show "main encode data Succeeds Succeeds dk =
          (None, dk\<lparr>index_file := Some (Intact \<lparr>dimension = length row, vectors = row # rows\<rparr>),
                    mapping_file := Some (Intact data)\<rparr>)"
    by (simp add: main_persist [of data ds encode row rows, OF ds enc] write_file_def)
qed

theorem build_index_needs_records_witness:
  "fst (main unit_encoder [] Succeeds Succeeds earlier_build) \<noteq> None
   \<and> snd (main unit_encoder [] Succeeds Succeeds earlier_build) = earlier_build
   \<and> main unit_encoder one_record Succeeds Succeeds no_files =
       (None, \<lparr>index_file = Some (Intact \<lparr>dimension = 1, vectors = [[1]]\<rparr>),
               mapping_file = Some (Intact one_record)\<rparr>)"
proof -
  have e: "\<forall>rows. unit_encoder [] = Inr rows \<longrightarrow> rows = []" by (simp add: unit_encoder_def)
  have ds: "descriptions_of one_record = Inr [PStr ''HDF5 file'']" by (simp add: one_record_def)
  have enc: "unit_encoder [PStr ''HDF5 file''] = Inr ([1] # [])" by (simp add: unit_encoder_def)
  note empty = build_index_needs_records
    [of unit_encoder Succeeds Succeeds earlier_build "[]" "[]" "[]" "[]", THEN conjunct1, THEN mp, OF e]
  note full = build_index_needs_records
    [of unit_encoder Succeeds Succeeds no_files one_record "[PStr ''HDF5 file'']" "[1]" "[]",
      THEN conjunct2, THEN mp, OF conjI [OF ds enc]]
  show ?thesis using empty full by (simp add: no_files_def)
qed

text \<open>
  With no records, a working embedder and no I/O failure, the build ends with an
  \<open>IndexError\<close> and writes nothing.
\<close>

theorem build_index_empty_counterexample:
  "main unit_encoder [] Succeeds Succeeds no_files = (Some IndexError, no_files)"
  by (simp add: main_def unit_encoder_def shape1_def)




end
